theory Spec2Isabelle
  imports Main "HOL-Library.Multiset"
begin

section \<open>JavaScript values used by the scheduler\<close>

text \<open>
  A JavaScript \<open>number\<close> that the scheduler computes with is either an integer
  (minutes, milliseconds, list positions) or \<open>NaN\<close>. Every comparison with \<open>NaN\<close> is
  false and every sum, difference or product with \<open>NaN\<close> is \<open>NaN\<close>.
\<close>

datatype jsnum = Finite int | NaN

fun num_ge :: "jsnum \<Rightarrow> jsnum \<Rightarrow> bool" where
  "num_ge (Finite a) (Finite b) = (a \<ge> b)"
| "num_ge _ _ = False"

fun num_gt :: "jsnum \<Rightarrow> jsnum \<Rightarrow> bool" where
  "num_gt (Finite a) (Finite b) = (a > b)"
| "num_gt _ _ = False"

fun num_le :: "jsnum \<Rightarrow> jsnum \<Rightarrow> bool" where
  "num_le (Finite a) (Finite b) = (a \<le> b)"
| "num_le _ _ = False"

fun num_lt :: "jsnum \<Rightarrow> jsnum \<Rightarrow> bool" where
  "num_lt (Finite a) (Finite b) = (a < b)"
| "num_lt _ _ = False"

fun num_add :: "jsnum \<Rightarrow> jsnum \<Rightarrow> jsnum" where
  "num_add (Finite a) (Finite b) = Finite (a + b)"
| "num_add _ _ = NaN"

fun num_sub :: "jsnum \<Rightarrow> jsnum \<Rightarrow> jsnum" where
  "num_sub (Finite a) (Finite b) = Finite (a - b)"
| "num_sub _ _ = NaN"

fun num_mul :: "jsnum \<Rightarrow> jsnum \<Rightarrow> jsnum" where
  "num_mul (Finite a) (Finite b) = Finite (a * b)"
| "num_mul _ _ = NaN"

text \<open>
  The parts of the host that the language standard leaves to the engine are parameters:
  the offset of local time from UTC on 1970-01-01 in milliseconds, what \<open>Date.parse\<close>
  answers for a string outside the two ISO shapes computed below, and what \<open>Number\<close>
  answers for a string that is not a plain run of decimal digits.
\<close>

record env =
  localTZA :: int
  parseOther :: "string \<Rightarrow> jsnum"
  numberOther :: "string \<Rightarrow> jsnum"

definition utcEnv :: env where
  "utcEnv = \<lparr>localTZA = 0, parseOther = (\<lambda>s. NaN), numberOther = (\<lambda>s. NaN)\<rparr>"

subsection \<open>Decimal fields\<close>

text \<open>The value of a character in the range \<open>0\<close> to \<open>9\<close> (codes 48 to 57).\<close>

definition digitVal :: "char \<Rightarrow> nat option" where
  "digitVal c =
     (let n = (of_char c :: nat) in if 48 \<le> n \<and> n \<le> 57 then Some (n - 48) else None)"

fun digitsAcc :: "nat \<Rightarrow> string \<Rightarrow> nat option" where
  "digitsAcc a [] = Some a"
| "digitsAcc a (c # cs) =
     (case digitVal c of None \<Rightarrow> None | Some v \<Rightarrow> digitsAcc (10 * a + v) cs)"

definition digitsVal :: "string \<Rightarrow> nat option" where
  "digitsVal s = (if s = [] then None else digitsAcc 0 s)"

subsection \<open>Calendar arithmetic of the Date object\<close>

definition InLeapYear :: "nat \<Rightarrow> bool" where
  "InLeapYear y = (if y mod 4 \<noteq> 0 then False else if y mod 100 \<noteq> 0 then True
                   else if y mod 400 \<noteq> 0 then False else True)"

definition DaysInYear :: "nat \<Rightarrow> nat" where
  "DaysInYear y = (if InLeapYear y then 366 else 365)"

definition DayFromYear :: "nat \<Rightarrow> int" where
  "DayFromYear y =
     365 * (int y - 1970) + (int y - 1969) div 4 - (int y - 1901) div 100
       + (int y - 1601) div 400"

definition daysInMonth :: "nat \<Rightarrow> nat \<Rightarrow> nat" where
  "daysInMonth y m =
     (if m = 2 then (if InLeapYear y then 29 else 28)
      else if m = 4 \<or> m = 6 \<or> m = 9 \<or> m = 11 then 30 else 31)"

definition dayBeforeMonth :: "nat \<Rightarrow> nat \<Rightarrow> nat" where
  "dayBeforeMonth y m = sum_list (map (daysInMonth y) [1..<m])"

definition MakeDay :: "nat \<Rightarrow> nat \<Rightarrow> nat \<Rightarrow> int" where
  "MakeDay y m d = DayFromYear y + int (dayBeforeMonth y m) + int d - 1"

definition msPerDay :: int where
  "msPerDay = 86400000"

definition msPerMinute :: int where
  "msPerMinute = 60000"

subsection \<open>Date.parse on the shapes the application produces\<close>

text \<open>
  \<open>YYYY-MM-DD\<close> with a month 01..12 and a day that exists in that month: the date-only
  form, which the standard reads as midnight UTC.
\<close>

fun parseIsoDate :: "string \<Rightarrow> (nat \<times> nat \<times> nat) option" where
  "parseIsoDate [y1, y2, y3, y4, s1, m1, m2, s2, d1, d2] =
     (if s1 = CHR ''-'' \<and> s2 = CHR ''-'' then
        (case digitsVal [y1, y2, y3, y4] of None \<Rightarrow> None | Some y \<Rightarrow>
         (case digitsVal [m1, m2] of None \<Rightarrow> None | Some m \<Rightarrow>
          (case digitsVal [d1, d2] of None \<Rightarrow> None | Some d \<Rightarrow>
             if 1 \<le> m \<and> m \<le> 12 \<and> 1 \<le> d \<and> d \<le> daysInMonth y m
             then Some (y, m, d) else None)))
      else None)"
| "parseIsoDate _ = None"

text \<open>Calendar dates compare by year, then month, then day.\<close>

fun calLe :: "nat \<times> nat \<times> nat \<Rightarrow> nat \<times> nat \<times> nat \<Rightarrow> bool" where
  "calLe (y, m, d) (y', m', d') =
     (y < y' \<or> (y = y' \<and> (m < m' \<or> (m = m' \<and> d \<le> d'))))"

definition validYMD :: "nat \<times> nat \<times> nat \<Rightarrow> bool" where
  "validYMD p =
     (case p of (y, m, d) \<Rightarrow> 1 \<le> m \<and> m \<le> 12 \<and> 1 \<le> d \<and> d \<le> daysInMonth y m)"

text \<open>\<open>HH:mm\<close> with an hour 00..23 and a minute 00..59.\<close>

fun parseHHmm :: "string \<Rightarrow> (nat \<times> nat) option" where
  "parseHHmm [h1, h2, c, m1, m2] =
     (if c = CHR '':'' then
        (case digitsVal [h1, h2] of None \<Rightarrow> None | Some h \<Rightarrow>
         (case digitsVal [m1, m2] of None \<Rightarrow> None | Some m \<Rightarrow>
            if h \<le> 23 \<and> m \<le> 59 then Some (h, m) else None))
      else None)"
| "parseHHmm _ = None"

text \<open>Times of day compare by their minute of the day; a malformed time is below nothing.\<close>

definition minuteOfDay :: "string \<Rightarrow> nat option" where
  "minuteOfDay s = (case parseHHmm s of None \<Rightarrow> None | Some (h, m) \<Rightarrow> Some (h * 60 + m))"

definition validHHmm :: "string \<Rightarrow> bool" where
  "validHHmm s = (minuteOfDay s \<noteq> None)"

definition timeLt :: "string \<Rightarrow> string \<Rightarrow> bool" where
  "timeLt a b =
     (case minuteOfDay a of None \<Rightarrow> False
      | Some x \<Rightarrow> (case minuteOfDay b of None \<Rightarrow> False | Some y \<Rightarrow> x < y))"

text \<open>
  \<open>YYYY-MM-DDTHH:mm\<close>: the date-time form without an offset, which the standard reads
  as local time.
\<close>

definition parseIsoDateTime :: "string \<Rightarrow> ((nat \<times> nat \<times> nat) \<times> (nat \<times> nat)) option" where
  "parseIsoDateTime s =
     (if length s = 16 \<and> s ! 10 = CHR ''T'' then
        (case parseIsoDate (take 10 s) of None \<Rightarrow> None | Some ymd \<Rightarrow>
         (case parseHHmm (drop 11 s) of None \<Rightarrow> None | Some hm \<Rightarrow> Some (ymd, hm)))
      else None)"

text \<open>\<open>new Date(s).getTime()\<close>: milliseconds since the epoch, or \<open>NaN\<close>.\<close>

definition getTime :: "env \<Rightarrow> string \<Rightarrow> jsnum" where
  "getTime e s =
     (case parseIsoDate s of
        Some (y, m, d) \<Rightarrow> Finite (MakeDay y m d * msPerDay)
      | None \<Rightarrow>
        (case parseIsoDateTime s of
           Some ((y, m, d), (h, mi)) \<Rightarrow>
             Finite (MakeDay y m d * msPerDay + (int h * 60 + int mi) * msPerMinute - localTZA e)
         | None \<Rightarrow> parseOther e s))"

section \<open>Data model (types)\<close>

text \<open>
  \<open>log_id\<close> and \<open>log_date\<close> are the fields \<open>id\<close> and \<open>date\<close> of \<open>TaskLog\<close>;
  \<open>task_id\<close> and \<open>task_order\<close> are the fields \<open>id\<close> and \<open>order\<close> of \<open>Task\<close>.
\<close>

record TaskLog =
  log_id :: string
  log_date :: string
  startTime :: string
  endTime :: string
  duration :: jsnum

text \<open>
  The fields of \<open>Task\<close> that some modelled function reads or writes; the others
  (\<open>estimatedHours\<close>, \<open>deadline\<close>, \<open>category\<close>, ...) are copied along by every
  \<open>{...task}\<close>. An optional field is an \<open>option\<close>, \<open>None\<close> being \<open>undefined\<close>.
\<close>

record Task =
  task_id :: string
  title :: string
  description :: string
  date :: string
  isAdHoc :: bool
  task_order :: int
  completed :: bool
  completedAt :: "string option"
  startDate :: "string option"
  endDate :: "string option"
  logs :: "TaskLog list option"
  totalDuration :: "jsnum option"

text \<open>Truthiness of an optional string: \<open>undefined\<close> and the empty string are falsy.\<close>

definition truthy :: "string option \<Rightarrow> bool" where
  "truthy s = (case s of None \<Rightarrow> False | Some v \<Rightarrow> v \<noteq> [])"

text \<open>The idiom \<open>task.logs || []\<close>.\<close>

definition logsOrEmpty :: "Task \<Rightarrow> TaskLog list" where
  "logsOrEmpty task = (case logs task of None \<Rightarrow> [] | Some ls \<Rightarrow> ls)"

section \<open>Task visibility resolver (page.tsx)\<close>

definition shouldTaskAppearOnDate :: "env \<Rightarrow> Task \<Rightarrow> string \<Rightarrow> bool" where
  "shouldTaskAppearOnDate e task dateStr =
     (if isAdHoc task then date task = dateStr
      else if truthy (startDate task) \<and> truthy (endDate task) then
        (let current = getTime e dateStr;
             start = getTime e (the (startDate task));
             end_t = getTime e (the (endDate task))
         in num_ge current start \<and> num_le current end_t)
      else date task = dateStr)"

section \<open>Work-log overlap validator (page.tsx)\<close>

definition isTimeRangeOverlap :: "env \<Rightarrow> string \<Rightarrow> string \<Rightarrow> TaskLog list \<Rightarrow> bool" where
  "isTimeRangeOverlap e newStart newEnd existingLogs =
     (let newStartTime = getTime e (''1970-01-01T'' @ newStart);
          newEndTime = getTime e (''1970-01-01T'' @ newEnd)
      in list_ex (\<lambda>log.
           let logStartTime = getTime e (''1970-01-01T'' @ startTime log);
               logEndTime = getTime e (''1970-01-01T'' @ endTime log)
           in (num_ge newStartTime logStartTime \<and> num_lt newStartTime logEndTime) \<or>
              (num_gt newEndTime logStartTime \<and> num_le newEndTime logEndTime) \<or>
              (num_le newStartTime logStartTime \<and> num_ge newEndTime logEndTime))
         existingLogs)"

text \<open>
  The \<open>validateTimeRange\<close> property that page.tsx hands to every card. The arrow
  function declares two parameters and closes over the task it renders; TaskCard calls it
  with a third argument, which JavaScript drops.
\<close>

definition validateTimeRange :: "env \<Rightarrow> Task \<Rightarrow> string \<Rightarrow> string \<Rightarrow> TaskLog list \<Rightarrow> bool" where
  "validateTimeRange e task startT endT dropped =
     isTimeRangeOverlap e startT endT (logsOrEmpty task)"

section \<open>Task card (TaskCard.tsx)\<close>

text \<open>The list \<open>otherLogs\<close> built inside the card's own \<open>isTimeRangeOverlap\<close>.\<close>

definition otherLogs :: "Task \<Rightarrow> string \<Rightarrow> string \<Rightarrow> string \<Rightarrow> TaskLog list" where
  "otherLogs localTask start end_t date_t =
     (case logs localTask of
        None \<Rightarrow> []
      | Some ls \<Rightarrow>
          filter (\<lambda>log. log_date log \<noteq> date_t \<or> startTime log \<noteq> start \<or> endTime log \<noteq> end_t) ls)"

definition TaskCard_isTimeRangeOverlap ::
  "(string \<Rightarrow> string \<Rightarrow> TaskLog list \<Rightarrow> bool) option \<Rightarrow> Task \<Rightarrow> string \<Rightarrow> string \<Rightarrow> string \<Rightarrow> bool"
where
  "TaskCard_isTimeRangeOverlap validate localTask start end_t date_t =
     (case validate of
        None \<Rightarrow> False
      | Some v \<Rightarrow> v start end_t (otherLogs localTask start end_t date_t))"

text \<open>\<open>s.split(c)\<close>: always at least one piece.\<close>

fun splitOn :: "char \<Rightarrow> string \<Rightarrow> string list" where
  "splitOn c [] = [[]]"
| "splitOn c (x # xs) =
     (if x = c then [] # splitOn c xs
      else (case splitOn c xs of [] \<Rightarrow> [[x]] | p # ps \<Rightarrow> (x # p) # ps))"

text \<open>
  \<open>Number(s)\<close>: the empty string is 0 and a run of decimal digits is its value (exact
  below \<open>2^53\<close>); every other spelling is the engine's.
\<close>

definition jsNumber :: "env \<Rightarrow> string \<Rightarrow> jsnum" where
  "jsNumber e s =
     (if s = [] then Finite 0
      else (case digitsAcc 0 s of Some n \<Rightarrow> Finite (int n) | None \<Rightarrow> numberOther e s))"

text \<open>An array element used in arithmetic: a missing one is \<open>undefined\<close>, hence \<open>NaN\<close>.\<close>

definition elemNum :: "jsnum list \<Rightarrow> nat \<Rightarrow> jsnum" where
  "elemNum xs i = (if i < length xs then xs ! i else NaN)"

definition calculateDuration :: "env \<Rightarrow> string \<Rightarrow> string \<Rightarrow> jsnum" where
  "calculateDuration e start end_t =
     (let sp = map (jsNumber e) (splitOn CHR '':'' start);
          ep = map (jsNumber e) (splitOn CHR '':'' end_t);
          startH = elemNum sp 0; startM = elemNum sp 1;
          endH = elemNum ep 0; endM = elemNum ep 1;
          startMinutes = num_add (num_mul startH (Finite 60)) startM;
          endMinutes = num_add (num_mul endH (Finite 60)) endM
      in num_sub endMinutes startMinutes)"

text \<open>The log form held in the card's state.\<close>

record NewLog =
  nl_date :: string
  nl_startTime :: string
  nl_endTime :: string
  nl_duration :: jsnum

datatype alert = EndNotAfterStart | OverlapsExisting

text \<open>
  What a handler did: returned at once, raised an alert and returned, or replaced the
  card's task (the value given to both \<open>setLocalTask\<close> and \<open>onUpdate\<close>).
\<close>

datatype outcome = Ignored | Alerted alert | Replaced Task

definition localTaskAfter :: "Task \<Rightarrow> outcome \<Rightarrow> Task" where
  "localTaskAfter localTask r = (case r of Replaced t \<Rightarrow> t | _ \<Rightarrow> localTask)"

text \<open>\<open>logs.reduce((sum, log) => sum + log.duration, 0)\<close>\<close>

definition reduceDuration :: "TaskLog list \<Rightarrow> jsnum" where
  "reduceDuration ls = foldl (\<lambda>sum log. num_add sum (duration log)) (Finite 0) ls"

text \<open>\<open>now\<close> is \<open>Date.now().toString()\<close>, the id of the new log.\<close>

definition handleAddLog ::
  "env \<Rightarrow> (string \<Rightarrow> string \<Rightarrow> TaskLog list \<Rightarrow> bool) option \<Rightarrow> Task \<Rightarrow> NewLog \<Rightarrow> string \<Rightarrow> outcome"
where
  "handleAddLog e validate localTask newLog now =
     (if nl_startTime newLog = [] \<or> nl_endTime newLog = [] then Ignored
      else
        let dur = calculateDuration e (nl_startTime newLog) (nl_endTime newLog) in
        if num_le dur (Finite 0) then Alerted EndNotAfterStart
        else if TaskCard_isTimeRangeOverlap validate localTask
                  (nl_startTime newLog) (nl_endTime newLog) (nl_date newLog)
        then Alerted OverlapsExisting
        else
          let log = \<lparr>log_id = now, log_date = nl_date newLog, startTime = nl_startTime newLog,
                       endTime = nl_endTime newLog, duration = dur\<rparr>;
              updatedLogs = logsOrEmpty localTask @ [log];
              total = reduceDuration updatedLogs
          in Replaced (localTask\<lparr>logs := Some updatedLogs, totalDuration := Some total\<rparr>))"

definition handleDeleteLog :: "Task \<Rightarrow> string \<Rightarrow> outcome" where
  "handleDeleteLog localTask logId =
     (let updatedLogs =
            (case logs localTask of None \<Rightarrow> []
             | Some ls \<Rightarrow> filter (\<lambda>log. log_id log \<noteq> logId) ls);
          total = reduceDuration updatedLogs
      in Replaced (localTask\<lparr>logs := Some updatedLogs, totalDuration := Some total\<rparr>))"

text \<open>
  The sum of a list of durations as a number: \<open>NaN\<close> as soon as one of them is, the
  integer sum otherwise.
\<close>

definition intOf :: "jsnum \<Rightarrow> int" where
  "intOf n = (case n of Finite i \<Rightarrow> i | NaN \<Rightarrow> 0)"

definition sumOfDurations :: "TaskLog list \<Rightarrow> jsnum" where
  "sumOfDurations ls =
     (if NaN \<in> set (map duration ls) then NaN
      else Finite (sum_list (map (\<lambda>l. intOf (duration l)) ls)))"

section \<open>Ordering manager (page.tsx)\<close>

definition nthOpt :: "'a list \<Rightarrow> nat \<Rightarrow> 'a option" where
  "nthOpt xs i = (if i < length xs then Some (xs ! i) else None)"

text \<open>\<open>findIndex\<close>, with \<open>None\<close> for -1.\<close>

fun findIndex :: "('a \<Rightarrow> bool) \<Rightarrow> 'a list \<Rightarrow> nat option" where
  "findIndex P [] = None"
| "findIndex P (x # xs) = (if P x then Some 0 else map_option Suc (findIndex P xs))"

text \<open>The \<open>map\<close> that hands \<open>orderCounter++\<close> to each incomplete task in turn.\<close>

fun assignOrder :: "int \<Rightarrow> Task list \<Rightarrow> Task list" where
  "assignOrder orderCounter [] = []"
| "assignOrder orderCounter (task # rest) =
     (if \<not> completed task
      then task\<lparr>task_order := orderCounter\<rparr> # assignOrder (orderCounter + 1) rest
      else task # assignOrder orderCounter rest)"

definition moveTask :: "Task list \<Rightarrow> nat \<Rightarrow> nat \<Rightarrow> Task list" where
  "moveTask prevTasks dragIndex hoverIndex =
     (let newTasks = prevTasks;
          incomplete = filter (\<lambda>t. \<not> completed t) newTasks;
          dragId = map_option task_id (nthOpt incomplete dragIndex);
          hoverId = map_option task_id (nthOpt incomplete hoverIndex)
      in if \<not> truthy dragId \<or> \<not> truthy hoverId then prevTasks
         else
           (case findIndex (\<lambda>t. Some (task_id t) = dragId) newTasks of
              None \<Rightarrow> prevTasks
            | Some dragActualIndex \<Rightarrow>
              (case findIndex (\<lambda>t. Some (task_id t) = hoverId) newTasks of
                 None \<Rightarrow> prevTasks
               | Some hoverActualIndex \<Rightarrow>
                   let draggedTask = newTasks ! dragActualIndex;
                       removed = take dragActualIndex newTasks @ drop (Suc dragActualIndex) newTasks;
                       inserted = take hoverActualIndex removed @ [draggedTask]
                                    @ drop hoverActualIndex removed
                   in assignOrder 0 inserted)))"

text \<open>The data-model invariant of a task list: ids are assigned and unique.\<close>

definition idsAssigned :: "Task list \<Rightarrow> bool" where
  "idsAssigned ts = (distinct (map task_id ts) \<and> [] \<notin> set (map task_id ts))"

section \<open>Persistence gateway (db.ts)\<close>

text \<open>
  The object store \<open>tasks\<close> is keyed by \<open>id\<close>; a cursor over it visits the records
  in key order, so the store is the list of its records in that order. The cursor over the
  index \<open>by-date\<close> restricted to one date visits the records with that date, again in
  key order. Ids are byte strings here, all of which lie between the bounds \<open>''\<close> and
  U+FFFF of the second cursor.
\<close>

definition byDateOnly :: "Task list \<Rightarrow> string \<Rightarrow> Task list" where
  "byDateOnly store d = filter (\<lambda>t. date t = d) store"

definition getTasksByDate :: "env \<Rightarrow> Task list \<Rightarrow> string \<Rightarrow> Task list" where
  "getTasksByDate e store d =
     (let tasks = byDateOnly store d;
          seenIds = set (map task_id tasks);
          tasks' = tasks @
            filter (\<lambda>task.
               truthy (startDate task) \<and> truthy (endDate task) \<and>
               (let currentDate = getTime e d;
                    startD = getTime e (the (startDate task));
                    endD = getTime e (the (endDate task))
                in num_ge currentDate startD \<and> num_le currentDate endD
                   \<and> task_id task \<notin> seenIds)) store
      in sort_key task_order tasks')"

section \<open>Report generator (page.tsx)\<close>

text \<open>
  A row of a day sheet: a task with one of its logs, a task without logs, or the
  placeholder of a day without tasks.
\<close>

datatype row = LogRow Task TaskLog | NoLogRow Task | NoTasksRow

definition dayRows :: "env \<Rightarrow> Task list \<Rightarrow> string \<Rightarrow> row list" where
  "dayRows e allTasks dateStr =
     (let dailyTasks = filter (\<lambda>task. shouldTaskAppearOnDate e task dateStr) allTasks;
          rows = concat (map (\<lambda>task.
                   (case logs task of
                      Some (l # ls) \<Rightarrow> map (LogRow task) (l # ls)
                    | _ \<Rightarrow> [NoLogRow task])) dailyTasks)
      in if rows = [] then [NoTasksRow] else rows)"

datatype exportError = ReferenceError string

text \<open>
  The names bound where the summary sheet is built: the locals of
  \<open>exportWeeklyReport\<close>, the component's state and callbacks, and the module's imports
  and top-level constants.
\<close>

definition exportScope :: "string list" where
  "exportScope =
     [''today'', ''startOfWeekDate'', ''endOfWeekDate'', ''allTasks'', ''weeklyData'', ''days'',
      ''wb'', ''summaryData'',
      ''currentDate'', ''setCurrentDate'', ''tasks'', ''setTasks'', ''monthTasks'',
      ''setMonthTasks'', ''view'', ''setView'', ''touchStartX'', ''setTouchStartX'',
      ''direction'', ''setDirection'', ''prevDirectionRef'', ''loading'', ''setLoading'',
      ''taskToDelete'', ''setTaskToDelete'', ''refreshTrigger'', ''setRefreshTrigger'',
      ''showTaskForm'', ''setShowTaskForm'', ''isAdHoc'', ''setIsAdHoc'', ''taskTypeRef'',
      ''formRef'', ''incompleteTasks'', ''completedTasks'', ''handleTouchStart'',
      ''handleTouchEnd'', ''deleteTask'', ''requestDelete'', ''nextDay'', ''prevDay'',
      ''nextMonth'', ''prevMonth'', ''goToday'', ''changeView'', ''handleDateClick'',
      ''handleKeyDown'', ''loadTasks'', ''loadMonthTasks'', ''handleAddTask'',
      ''handleUpdateTask'', ''moveTask'', ''exportWeeklyReport'',
      ''useState'', ''useEffect'', ''useRef'', ''useCallback'', ''useMemo'', ''format'',
      ''addDays'', ''subDays'', ''addMonths'', ''subMonths'', ''startOfMonth'', ''endOfMonth'',
      ''eachDayOfInterval'', ''isSameDay'', ''startOfWeek'', ''endOfWeek'', ''db'', ''XLSX'',
      ''TaskForm'', ''TaskCard'', ''motion'', ''AnimatePresence'', ''DndProvider'',
      ''HTML5Backend'', ''useDrag'', ''useDrop'', ''isTimeRangeOverlap'',
      ''shouldTaskAppearOnDate'', ''generateTaskColor'', ''DraggableTaskCard'',
      ''ScheduleManager'']"

definition readVar :: "string list \<Rightarrow> string \<Rightarrow> exportError + unit" where
  "readVar scope name = (if name \<in> set scope then Inr () else Inl (ReferenceError name))"

text \<open>
  \<open>weekDates\<close> are the seven \<open>yyyy-MM-dd\<close> strings of the current week, Monday first.
  The day sheets are built and appended to the workbook; then the summary sheet is made
  from the value of \<open>summaryDataForExport\<close>. Reading a name that is not bound throws;
  the \<open>catch\<close> block turns the exception into the failure alert and
  \<open>XLSX.writeFile\<close> is not reached. \<open>Inl\<close> is that exception, \<open>Inr\<close> the day sheets of
  a workbook that was written.
\<close>

definition exportWeeklyReport :: "env \<Rightarrow> string list \<Rightarrow> Task list \<Rightarrow> exportError + row list list" where
  "exportWeeklyReport e weekDates allTasks =
     (let weeklyData = map (dayRows e allTasks) weekDates;
          wb = weeklyData
      in (case readVar exportScope ''summaryDataForExport'' of
            Inl err \<Rightarrow> Inl err
          | Inr u \<Rightarrow> Inr wb))"

section \<open>Concrete tasks and logs\<close>

definition rangeTask :: Task where
  "rangeTask = \<lparr>task_id = ''1700000000000'', title = ''A'', description = [],
      date = ''2024-01-01'', isAdHoc = False, task_order = 0, completed = False,
      completedAt = None, startDate = Some ''2024-01-01'', endDate = Some ''2024-01-05'',
      logs = Some [], totalDuration = Some (Finite 0)\<rparr>"

definition log_10_11 :: TaskLog where
  "log_10_11 = \<lparr>log_id = ''1700000000001'', log_date = ''2024-01-03'', startTime = ''10:00'',
      endTime = ''11:00'', duration = Finite 60\<rparr>"

definition log_0930_1030 :: TaskLog where
  "log_0930_1030 = \<lparr>log_id = ''1700000000002'', log_date = ''2024-01-03'', startTime = ''09:30'',
      endTime = ''10:30'', duration = Finite 60\<rparr>"

definition form_1000_1000 :: NewLog where
  "form_1000_1000 = \<lparr>nl_date = ''2024-01-03'', nl_startTime = ''10:00'', nl_endTime = ''10:00'',
      nl_duration = Finite 60\<rparr>"

definition form_0900_1000 :: NewLog where
  "form_0900_1000 = \<lparr>nl_date = ''2024-01-03'', nl_startTime = ''09:00'', nl_endTime = ''10:00'',
      nl_duration = Finite 60\<rparr>"

definition log_0900_1000 :: TaskLog where
  "log_0900_1000 = \<lparr>log_id = ''1700000000009'', log_date = ''2024-01-03'', startTime = ''09:00'',
      endTime = ''10:00'', duration = Finite 60\<rparr>"

definition addedTask :: Task where
  "addedTask = rangeTask\<lparr>logs := Some [log_0900_1000], totalDuration := Some (Finite 60)\<rparr>"

definition log_dup :: TaskLog where
  "log_dup = \<lparr>log_id = ''1700000000003'', log_date = ''2024-01-03'', startTime = ''09:00'',
      endTime = ''10:00'', duration = Finite 60\<rparr>"

definition dupTask :: Task where
  "dupTask = rangeTask\<lparr>logs := Some [log_dup], totalDuration := Some (Finite 60)\<rparr>"

definition taskB :: Task where
  "taskB = rangeTask\<lparr>task_id := ''1700000000100'', task_order := 7, completed := True\<rparr>"

definition taskC :: Task where
  "taskC = rangeTask\<lparr>task_id := ''1700000000200'', task_order := 1\<rparr>"

definition adhocRangeTask :: Task where
  "adhocRangeTask = rangeTask\<lparr>isAdHoc := True\<rparr>"

definition offRangeTask :: Task where
  "offRangeTask = rangeTask\<lparr>date := ''2024-01-10''\<rparr>"

section \<open>Calendar order and epoch milliseconds agree\<close>

lemma div_step:
  fixes z n :: int
  assumes "0 < n"
  shows "(z + 1) div n = z div n + (if (z + 1) mod n = 0 then 1 else 0)"
proof -
  define q where "q = z div n"
  define r where "r = z mod n"
  have z: "z = n * q + r" by (simp add: q_def r_def)
  have r0: "0 \<le> r" and rn: "r < n" using assms by (simp_all add: r_def)
  show ?thesis
  proof (cases "r + 1 = n")
    case True
    have e: "z + 1 = n * (q + 1) + 0" using z True by (simp add: algebra_simps)
    have "(z + 1) div n = q + 1" using int_div_pos_eq[OF e] assms by simp
    moreover have "(z + 1) mod n = 0" using int_mod_pos_eq[OF e] assms by simp
    ultimately show ?thesis by (simp add: q_def)
  next
    case False
    have e: "z + 1 = n * q + (r + 1)" using z by simp
    have b: "0 \<le> r + 1" "r + 1 < n" using r0 rn False by linarith+
    have "(z + 1) div n = q" using int_div_pos_eq[OF e b] .
    moreover have "(z + 1) mod n = r + 1" using int_mod_pos_eq[OF e b] .
    ultimately show ?thesis using r0 by (simp add: q_def)
  qed
qed

lemma mod_shift:
  fixes n :: nat
  shows "((int y - int (k * n)) mod int n = 0) = (y mod n = 0)"
proof -
  have "(int y - int (k * n)) mod int n = (int y + (- int k) * int n) mod int n"
    by (simp add: algebra_simps)
  also have "\<dots> = int y mod int n" by (rule mod_mult_self1)
  also have "\<dots> = int (y mod n)" by (simp add: zmod_int)
  finally show ?thesis by simp
qed

lemma not4_not100: "(y::nat) mod 4 \<noteq> 0 \<Longrightarrow> y mod 100 \<noteq> 0"
proof
  assume n: "y mod 4 \<noteq> 0" and "y mod 100 = 0"
  then have "100 dvd y" by (simp add: mod_eq_0_iff_dvd)
  moreover have "(4::nat) dvd 100" by simp
  ultimately have "4 dvd y" by (rule dvd_trans[rotated])
  then show False using n by (simp add: mod_eq_0_iff_dvd)
qed

lemma not100_not400: "(y::nat) mod 100 \<noteq> 0 \<Longrightarrow> y mod 400 \<noteq> 0"
proof
  assume n: "y mod 100 \<noteq> 0" and "y mod 400 = 0"
  then have "400 dvd y" by (simp add: mod_eq_0_iff_dvd)
  moreover have "(100::nat) dvd 400" by simp
  ultimately have "100 dvd y" by (rule dvd_trans[rotated])
  then show False using n by (simp add: mod_eq_0_iff_dvd)
qed

lemma DayFromYear_Suc: "DayFromYear (Suc y) = DayFromYear y + int (DaysInYear y)"
proof -
  have a: "(int (Suc y) - 1969) div 4 = (int y - 1969) div 4 + (if y mod 4 = 0 then 1 else 0)"
    using div_step[of 4 "int y - 1969"] mod_shift[of y 492 4] by (simp add: algebra_simps)
  have b: "(int (Suc y) - 1901) div 100 = (int y - 1901) div 100 + (if y mod 100 = 0 then 1 else 0)"
    using div_step[of 100 "int y - 1901"] mod_shift[of y 19 100] by (simp add: algebra_simps)
  have c: "(int (Suc y) - 1601) div 400 = (int y - 1601) div 400 + (if y mod 400 = 0 then 1 else 0)"
    using div_step[of 400 "int y - 1601"] mod_shift[of y 4 400] by (simp add: algebra_simps)
  show ?thesis
  proof (cases "y mod 4 = 0")
    case False
    then have "y mod 100 \<noteq> 0" by (rule not4_not100)
    moreover from this have "y mod 400 \<noteq> 0" by (rule not100_not400)
    ultimately show ?thesis using False
      unfolding DayFromYear_def DaysInYear_def InLeapYear_def a b c by simp
  next
    case True
    show ?thesis
    proof (cases "y mod 100 = 0")
      case False
      then have "y mod 400 \<noteq> 0" by (rule not100_not400)
      then show ?thesis using True False
        unfolding DayFromYear_def DaysInYear_def InLeapYear_def a b c by simp
    next
      case h: True
      show ?thesis using True h
        unfolding DayFromYear_def DaysInYear_def InLeapYear_def a b c by simp
    qed
  qed
qed

lemma upt_1_13: "[Suc 0..<13] = [1,2,3,4,5,6,7,8,9,10,11,12::nat]"
  by code_simp

lemma dayBeforeMonth_13: "dayBeforeMonth y 13 = DaysInYear y"
  by (simp add: dayBeforeMonth_def daysInMonth_def DaysInYear_def upt_1_13)

lemma DayFromYear_mono: "y \<le> y' \<Longrightarrow> DayFromYear y + int (DaysInYear y) \<le> DayFromYear (Suc y')"
proof (induction y' rule: dec_induct)
  case base
  then show ?case by (simp add: DayFromYear_Suc)
next
  case (step n)
  then show ?case by (simp add: DayFromYear_Suc)
qed

lemma dayBeforeMonth_Suc: "1 \<le> m \<Longrightarrow> dayBeforeMonth y (Suc m) = dayBeforeMonth y m + daysInMonth y m"
  by (simp add: dayBeforeMonth_def)

lemma dayBeforeMonth_mono: "m \<le> m' \<Longrightarrow> 1 \<le> m \<Longrightarrow> dayBeforeMonth y m + daysInMonth y m \<le> dayBeforeMonth y (Suc m')"
proof (induction m' rule: dec_induct)
  case base
  then show ?case by (simp add: dayBeforeMonth_Suc)
next
  case (step n)
  then show ?case by (simp add: dayBeforeMonth_Suc)
qed

lemma dayOfYear_bound:
  assumes "1 \<le> m" "m \<le> 12" "d \<le> daysInMonth y m"
  shows "dayBeforeMonth y m + d \<le> DaysInYear y"
proof -
  have "dayBeforeMonth y m + daysInMonth y m \<le> dayBeforeMonth y (Suc 12)"
    using assms(2,1) by (rule dayBeforeMonth_mono)
  then show ?thesis using assms(3) by (simp add: dayBeforeMonth_13)
qed

lemma MakeDay_lt_year:
  assumes "y < y'" "validYMD (y, m, d)" "validYMD (y', m', d')"
  shows "MakeDay y m d < MakeDay y' m' d'"
proof -
  have "dayBeforeMonth y m + d \<le> DaysInYear y"
    using assms(2) by (intro dayOfYear_bound) (simp_all add: validYMD_def)
  then have a: "int (dayBeforeMonth y m) + int d \<le> int (DaysInYear y)" by linarith
  have "y \<le> y' - 1" using assms(1) by simp
  then have "DayFromYear y + int (DaysInYear y) \<le> DayFromYear (Suc (y' - 1))"
    by (rule DayFromYear_mono)
  then have b: "DayFromYear y + int (DaysInYear y) \<le> DayFromYear y'"
    using assms(1) by simp
  have c: "1 \<le> d'" using assms(3) by (simp add: validYMD_def)
  show ?thesis unfolding MakeDay_def using a b c by linarith
qed

lemma MakeDay_lt_month:
  assumes "m < m'" "validYMD (y, m, d)" "validYMD (y, m', d')"
  shows "MakeDay y m d < MakeDay y m' d'"
proof -
  have "m \<le> m' - 1" "1 \<le> m" using assms by (simp_all add: validYMD_def)
  then have "dayBeforeMonth y m + daysInMonth y m \<le> dayBeforeMonth y (Suc (m' - 1))"
    by (rule dayBeforeMonth_mono)
  then have "dayBeforeMonth y m + daysInMonth y m \<le> dayBeforeMonth y m'"
    using assms(1) by simp
  moreover have "d \<le> daysInMonth y m" "1 \<le> d'" using assms by (simp_all add: validYMD_def)
  ultimately show ?thesis unfolding MakeDay_def by linarith
qed

lemma MakeDay_le_iff:
  assumes "validYMD (y, m, d)" "validYMD (y', m', d')"
  shows "(MakeDay y m d \<le> MakeDay y' m' d') = calLe (y, m, d) (y', m', d')"
proof -
  consider "y < y'" | "y' < y" | "y = y'" "m < m'" | "y = y'" "m' < m" | "y = y'" "m = m'"
    by linarith
  then show ?thesis
  proof cases
    case 1
    then show ?thesis using MakeDay_lt_year[OF 1 assms] by simp
  next
    case 2
    then show ?thesis using MakeDay_lt_year[OF 2 assms(2) assms(1)] by simp
  next
    case 3
    then show ?thesis using MakeDay_lt_month[of m m' y d d'] assms by simp
  next
    case 4
    then show ?thesis using MakeDay_lt_month[of m' m y d' d] assms by simp
  next
    case 5
    then show ?thesis unfolding MakeDay_def by simp linarith
  qed
qed

lemma parseIsoDate_valid: "parseIsoDate s = Some p \<Longrightarrow> validYMD p"
  by (cases s rule: parseIsoDate.cases) (auto simp add: validYMD_def split: if_splits option.splits)

lemma getTime_date: "parseIsoDate s = Some (y, m, d) \<Longrightarrow> getTime e s = Finite (MakeDay y m d * msPerDay)"
  by (simp add: getTime_def)

lemma date_le_iff:
  assumes "parseIsoDate a = Some p" "parseIsoDate b = Some q"
  shows "num_le (getTime e a) (getTime e b) = calLe p q"
    and "num_ge (getTime e b) (getTime e a) = calLe p q"
proof -
  obtain y m d where p: "p = (y, m, d)" by (cases p) auto
  obtain y' m' d' where q: "q = (y', m', d')" by (cases q) auto
  have v: "validYMD (y, m, d)" "validYMD (y', m', d')"
    using assms parseIsoDate_valid p q by blast+
  have "(MakeDay y m d * msPerDay \<le> MakeDay y' m' d' * msPerDay) = (MakeDay y m d \<le> MakeDay y' m' d')"
    by (simp add: msPerDay_def)
  then show "num_le (getTime e a) (getTime e b) = calLe p q"
    and "num_ge (getTime e b) (getTime e a) = calLe p q"
    using assms p q MakeDay_le_iff[OF v] by (simp_all add: getTime_date)
qed

lemma parseIsoDate_nonempty: "parseIsoDate s = Some p \<Longrightarrow> s \<noteq> []"
  by auto

lemma parse_2024_01_03: "parseIsoDate ''2024-01-03'' = Some (2024, 1, 3)"
  by code_simp
lemma parse_2024_01_01: "parseIsoDate ''2024-01-01'' = Some (2024, 1, 1)"
  by code_simp
lemma parse_2024_01_05: "parseIsoDate ''2024-01-05'' = Some (2024, 1, 5)"
  by code_simp
lemma parse_2024_01_06: "parseIsoDate ''2024-01-06'' = Some (2024, 1, 6)"
  by code_simp

lemma getTime_not_a_date: "getTime utcEnv ''not-a-date'' = NaN"
  by (simp add: getTime_def utcEnv_def parseIsoDateTime_def)

section \<open>The resolver\<close>

text \<open>
  C3. For a well-formed date string \<open>d\<close>: an ad-hoc task occurs on \<open>d\<close> exactly when
  its \<open>date\<close> is \<open>d\<close>; a task that is not ad-hoc and has both \<open>startDate\<close> and
  \<open>endDate\<close> (well-formed dates) occurs exactly when \<open>startDate \<le> d \<le> endDate\<close> as
  calendar dates, both ends included; any other task occurs exactly when its \<open>date\<close> is
  \<open>d\<close>.
\<close>

theorem shouldTaskAppearOnDate_cases:
  assumes "parseIsoDate d = Some c"
  shows "(isAdHoc t \<longrightarrow> shouldTaskAppearOnDate e t d = (date t = d))
       \<and> (\<not> isAdHoc t \<and> startDate t = Some sd \<and> endDate t = Some ed
            \<and> parseIsoDate sd = Some s \<and> parseIsoDate ed = Some f
          \<longrightarrow> shouldTaskAppearOnDate e t d = (calLe s c \<and> calLe c f))
       \<and> (\<not> isAdHoc t \<and> \<not> (truthy (startDate t) \<and> truthy (endDate t))
          \<longrightarrow> shouldTaskAppearOnDate e t d = (date t = d))"
proof (intro conjI impI)
  assume "isAdHoc t"
  then show "shouldTaskAppearOnDate e t d = (date t = d)"
    by (simp add: shouldTaskAppearOnDate_def)
next
  assume h: "\<not> isAdHoc t \<and> startDate t = Some sd \<and> endDate t = Some ed
            \<and> parseIsoDate sd = Some s \<and> parseIsoDate ed = Some f"
  then have ne: "sd \<noteq> []" "ed \<noteq> []" using parseIsoDate_nonempty by blast+
  have "num_ge (getTime e d) (getTime e sd) = calLe s c"
    using h assms by (simp add: date_le_iff)
  moreover have "num_le (getTime e d) (getTime e ed) = calLe c f"
    using h assms by (simp add: date_le_iff)
  ultimately show "shouldTaskAppearOnDate e t d = (calLe s c \<and> calLe c f)"
    using h ne by (simp add: shouldTaskAppearOnDate_def truthy_def)
next
  assume "\<not> isAdHoc t \<and> \<not> (truthy (startDate t) \<and> truthy (endDate t))"
  then show "shouldTaskAppearOnDate e t d = (date t = d)"
    by (auto simp add: shouldTaskAppearOnDate_def)
qed

theorem shouldTaskAppearOnDate_cases_witness:
  "shouldTaskAppearOnDate utcEnv rangeTask ''2024-01-03''
   \<and> \<not> shouldTaskAppearOnDate utcEnv rangeTask ''2024-01-06''
   \<and> \<not> shouldTaskAppearOnDate utcEnv (rangeTask\<lparr>isAdHoc := True\<rparr>) ''2024-01-03''
   \<and> shouldTaskAppearOnDate utcEnv (rangeTask\<lparr>startDate := None\<rparr>) ''2024-01-01''"
  using shouldTaskAppearOnDate_cases[OF parse_2024_01_03, where t = rangeTask and sd = "''2024-01-01''" and ed = "''2024-01-05''"
        and s = "(2024, 1, 1)" and f = "(2024, 1, 5)" and e = utcEnv]
    shouldTaskAppearOnDate_cases[OF parse_2024_01_06, where t = rangeTask and sd = "''2024-01-01''" and ed = "''2024-01-05''"
        and s = "(2024, 1, 1)" and f = "(2024, 1, 5)" and e = utcEnv]
    shouldTaskAppearOnDate_cases[OF parse_2024_01_03, where t = "rangeTask\<lparr>isAdHoc := True\<rparr>" and e = utcEnv]
    shouldTaskAppearOnDate_cases[OF parse_2024_01_01, where t = "rangeTask\<lparr>startDate := None\<rparr>" and e = utcEnv]
  by (simp add: rangeTask_def parse_2024_01_01 parse_2024_01_05 truthy_def del: parseIsoDate.simps)

text \<open>
  C8, as the code has it. For a date string that does not parse, the resolver still
  answers; the answer is \<open>False\<close> on the range branch, and on the ad-hoc and fallback
  branches it is whether the task's \<open>date\<close> is that very string.
\<close>

theorem shouldTaskAppearOnDate_unparsable:
  assumes "getTime e d = NaN"
  shows "shouldTaskAppearOnDate e t d =
           ((isAdHoc t \<or> \<not> (truthy (startDate t) \<and> truthy (endDate t))) \<and> date t = d)"
  using assms by (auto simp add: shouldTaskAppearOnDate_def)

theorem shouldTaskAppearOnDate_unparsable_witness:
  "getTime utcEnv ''not-a-date'' = NaN \<and> \<not> shouldTaskAppearOnDate utcEnv rangeTask ''not-a-date''"
  using shouldTaskAppearOnDate_unparsable[OF getTime_not_a_date, where t = rangeTask]
  by (simp add: getTime_not_a_date rangeTask_def truthy_def)

text \<open>
  C8 as stated fails: an ad-hoc task whose \<open>date\<close> is the same unparsable string as the
  query does occur.
\<close>

theorem malformed_adhoc_counterexample:
  "getTime utcEnv ''not-a-date'' = NaN
   \<and> shouldTaskAppearOnDate utcEnv (rangeTask\<lparr>isAdHoc := True, date := ''not-a-date''\<rparr>) ''not-a-date''"
  by (simp add: getTime_not_a_date shouldTaskAppearOnDate_def)

section \<open>The overlap validator\<close>

lemma parse_epoch: "parseIsoDate ''1970-01-01'' = Some (1970, 1, 1)"
  by code_simp

lemma MakeDay_epoch: "MakeDay 1970 (Suc 0) (Suc 0) = 0"
  by code_simp

lemma parseHHmm_length: "parseHHmm s = Some hm \<Longrightarrow> length s = 5"
  by (cases s rule: parseHHmm.cases) simp_all

lemma getTime_time:
  assumes "parseHHmm s = Some (h, m)"
  shows "getTime e (''1970-01-01T'' @ s) = Finite ((int h * 60 + int m) * msPerMinute - localTZA e)"
proof -
  obtain a b c d f where s: "s = [a, b, c, d, f]"
    using parseHHmm_length[OF assms] by (auto simp: length_Suc_conv eval_nat_numeral)
  have dt: "parseIsoDateTime (''1970-01-01T'' @ s) = Some ((1970, 1, 1), (h, m))"
    using assms unfolding parseIsoDateTime_def s
    by (simp add: parse_epoch del: parseIsoDate.simps parseHHmm.simps)
  have d: "parseIsoDate (''1970-01-01T'' @ s) = None"
    unfolding s by simp
  show ?thesis
    unfolding getTime_def d dt by (simp add: MakeDay_epoch)
qed

lemma getTime_minute:
  assumes "minuteOfDay s = Some x"
  shows "getTime e (''1970-01-01T'' @ s) = Finite (int x * msPerMinute - localTZA e)"
proof -
  obtain h m where "parseHHmm s = Some (h, m)" "x = h * 60 + m"
    using assms by (auto simp: minuteOfDay_def split: option.splits)
  then show ?thesis using getTime_time[of s h m e] by simp
qed

lemma timeLt_D: "timeLt a b \<Longrightarrow> \<exists>x y. minuteOfDay a = Some x \<and> minuteOfDay b = Some y \<and> x < y"
  by (auto simp: timeLt_def split: option.splits)

lemma overlap_one:
  assumes ns: "minuteOfDay newStart = Some a" and ne: "minuteOfDay newEnd = Some b" and ab: "a < b"
      and ls: "minuteOfDay (startTime log) = Some c" and le: "minuteOfDay (endTime log) = Some d" and cd: "c < d"
  shows "((num_ge (getTime e (''1970-01-01T'' @ newStart)) (getTime e (''1970-01-01T'' @ startTime log))
          \<and> num_lt (getTime e (''1970-01-01T'' @ newStart)) (getTime e (''1970-01-01T'' @ endTime log)))
        \<or> (num_gt (getTime e (''1970-01-01T'' @ newEnd)) (getTime e (''1970-01-01T'' @ startTime log))
          \<and> num_le (getTime e (''1970-01-01T'' @ newEnd)) (getTime e (''1970-01-01T'' @ endTime log)))
        \<or> (num_le (getTime e (''1970-01-01T'' @ newStart)) (getTime e (''1970-01-01T'' @ startTime log))
          \<and> num_ge (getTime e (''1970-01-01T'' @ newEnd)) (getTime e (''1970-01-01T'' @ endTime log))))
       = (a < d \<and> c < b)"
  unfolding getTime_minute[OF ns] getTime_minute[OF ne] getTime_minute[OF ls] getTime_minute[OF le]
  using ab cd by (simp add: msPerMinute_def) linarith

text \<open>
  C2. For well-formed same-day times with \<open>newStart < newEnd\<close> and existing logs that
  all have \<open>startTime < endTime\<close>, \<open>isTimeRangeOverlap\<close> answers true exactly when
  some log satisfies \<open>newStart < log.endTime\<close> and \<open>log.startTime < newEnd\<close>; intervals
  that only touch, such as 09:00-10:00 and 10:00-11:00, do not overlap.
\<close>

theorem isTimeRangeOverlap_half_open:
  assumes "timeLt newStart newEnd"
      and "\<forall>log \<in> set existingLogs. timeLt (startTime log) (endTime log)"
  shows "isTimeRangeOverlap e newStart newEnd existingLogs
           = (\<exists>log \<in> set existingLogs. timeLt newStart (endTime log) \<and> timeLt (startTime log) newEnd)"
proof -
  obtain a b where ns: "minuteOfDay newStart = Some a" and ne: "minuteOfDay newEnd = Some b" and ab: "a < b"
    using timeLt_D[OF assms(1)] by blast
  have "\<And>log. log \<in> set existingLogs \<Longrightarrow>
      ((num_ge (getTime e (''1970-01-01T'' @ newStart)) (getTime e (''1970-01-01T'' @ startTime log))
          \<and> num_lt (getTime e (''1970-01-01T'' @ newStart)) (getTime e (''1970-01-01T'' @ endTime log)))
        \<or> (num_gt (getTime e (''1970-01-01T'' @ newEnd)) (getTime e (''1970-01-01T'' @ startTime log))
          \<and> num_le (getTime e (''1970-01-01T'' @ newEnd)) (getTime e (''1970-01-01T'' @ endTime log)))
        \<or> (num_le (getTime e (''1970-01-01T'' @ newStart)) (getTime e (''1970-01-01T'' @ startTime log))
          \<and> num_ge (getTime e (''1970-01-01T'' @ newEnd)) (getTime e (''1970-01-01T'' @ endTime log))))
       = (timeLt newStart (endTime log) \<and> timeLt (startTime log) newEnd)"
  proof -
    fix log assume "log \<in> set existingLogs"
    then have "timeLt (startTime log) (endTime log)" using assms(2) by blast
    then obtain c d where ls: "minuteOfDay (startTime log) = Some c"
        and le: "minuteOfDay (endTime log) = Some d" and cd: "c < d"
      using timeLt_D by blast
    show "((num_ge (getTime e (''1970-01-01T'' @ newStart)) (getTime e (''1970-01-01T'' @ startTime log))
          \<and> num_lt (getTime e (''1970-01-01T'' @ newStart)) (getTime e (''1970-01-01T'' @ endTime log)))
        \<or> (num_gt (getTime e (''1970-01-01T'' @ newEnd)) (getTime e (''1970-01-01T'' @ startTime log))
          \<and> num_le (getTime e (''1970-01-01T'' @ newEnd)) (getTime e (''1970-01-01T'' @ endTime log)))
        \<or> (num_le (getTime e (''1970-01-01T'' @ newStart)) (getTime e (''1970-01-01T'' @ startTime log))
          \<and> num_ge (getTime e (''1970-01-01T'' @ newEnd)) (getTime e (''1970-01-01T'' @ endTime log))))
       = (timeLt newStart (endTime log) \<and> timeLt (startTime log) newEnd)"
      unfolding overlap_one[OF ns ne ab ls le cd]
      by (simp add: timeLt_def ns ne ls le)
  qed
  then show ?thesis
    unfolding isTimeRangeOverlap_def Let_def list_ex_iff by (intro bex_cong refl) 
qed

lemma minute_0900: "minuteOfDay ''09:00'' = Some 540"
  by code_simp

lemma minute_0930: "minuteOfDay ''09:30'' = Some 570"
  by code_simp

lemma minute_1000: "minuteOfDay ''10:00'' = Some 600"
  by code_simp

lemma minute_1030: "minuteOfDay ''10:30'' = Some 630"
  by code_simp

lemma minute_1100: "minuteOfDay ''11:00'' = Some 660"
  by code_simp

lemmas minutes = minute_0900 minute_0930 minute_1000 minute_1030 minute_1100

theorem isTimeRangeOverlap_half_open_witness:
  "timeLt ''09:00'' ''10:00''
   \<and> timeLt (startTime log_10_11) (endTime log_10_11)
   \<and> \<not> isTimeRangeOverlap utcEnv ''09:00'' ''10:00'' [log_10_11]
   \<and> timeLt (startTime log_0930_1030) (endTime log_0930_1030)
   \<and> isTimeRangeOverlap utcEnv ''09:00'' ''10:00'' [log_0930_1030]"
proof -
  have a: "timeLt ''09:00'' ''10:00''"
    by (simp add: timeLt_def minutes)
  have b': "timeLt (startTime log_10_11) (endTime log_10_11)"
    by (simp add: timeLt_def minutes log_10_11_def)
  have c': "timeLt (startTime log_0930_1030) (endTime log_0930_1030)"
    by (simp add: timeLt_def minutes log_0930_1030_def)
  have b: "\<forall>log \<in> set [log_10_11]. timeLt (startTime log) (endTime log)"
    using b' by simp
  have c: "\<forall>log \<in> set [log_0930_1030]. timeLt (startTime log) (endTime log)"
    using c' by simp
  have "\<not> isTimeRangeOverlap utcEnv ''09:00'' ''10:00'' [log_10_11]"
    unfolding isTimeRangeOverlap_half_open[OF a b]
    by (simp add: timeLt_def minutes log_10_11_def)
  moreover have "isTimeRangeOverlap utcEnv ''09:00'' ''10:00'' [log_0930_1030]"
    unfolding isTimeRangeOverlap_half_open[OF a c]
    by (simp add: timeLt_def minutes log_0930_1030_def)
  ultimately show ?thesis using a b' c' by blast
qed

section \<open>The task card\<close>

lemma digitVal_colon: "digitVal CHR '':'' = None"
  by (simp add: digitVal_def)

lemma digitsVal_2: "digitsVal [a, b] = Some n \<Longrightarrow> a \<noteq> CHR '':'' \<and> b \<noteq> CHR '':'' \<and> digitsAcc 0 [a, b] = Some n"
  using digitVal_colon by (auto simp: digitsVal_def split: option.splits)

lemma split_HHmm:
  assumes "parseHHmm s = Some (h, m)"
  shows "map (jsNumber e) (splitOn CHR '':'' s) = [Finite (int h), Finite (int m)]"
proof -
  obtain a b c d f where s: "s = [a, b, c, d, f]"
    using parseHHmm_length[OF assms] by (auto simp: length_Suc_conv eval_nat_numeral)
  have c: "c = CHR '':''" and hh: "digitsVal [a, b] = Some h" and mm: "digitsVal [d, f] = Some m"
    using assms unfolding s by (auto split: if_splits option.splits)
  have "splitOn CHR '':'' s = [[a, b], [d, f]]"
    using digitsVal_2[OF hh] digitsVal_2[OF mm] unfolding s c by simp
  moreover have "jsNumber e [a, b] = Finite (int h)" "jsNumber e [d, f] = Finite (int m)"
    using digitsVal_2[OF hh] digitsVal_2[OF mm] by (simp_all add: jsNumber_def)
  ultimately show ?thesis by simp
qed

lemma calculateDuration_HHmm:
  assumes "minuteOfDay s = Some x" "minuteOfDay f = Some y"
  shows "calculateDuration e s f = Finite (int y - int x)"
proof -
  obtain h m where s: "parseHHmm s = Some (h, m)" "x = h * 60 + m"
    using assms(1) by (auto simp: minuteOfDay_def split: option.splits)
  obtain h' m' where f: "parseHHmm f = Some (h', m')" "y = h' * 60 + m'"
    using assms(2) by (auto simp: minuteOfDay_def split: option.splits)
  show ?thesis
    unfolding calculateDuration_def split_HHmm[OF s(1)] split_HHmm[OF f(1)]
    by (simp add: elemNum_def s(2) f(2))
qed

lemma validHHmm_nonempty: "validHHmm s \<Longrightarrow> s \<noteq> []"
  by (auto simp: validHHmm_def minuteOfDay_def)

text \<open>
  C5. A proposed log with well-formed times whose end is not after its start is rejected
  by \<open>handleAddLog\<close> with the alert for a non-positive duration, whatever the validator
  and the existing logs are, and the card's task stays as it was.
\<close>

theorem handleAddLog_rejects_nonpositive:
  assumes "validHHmm (nl_startTime newLog)" and "validHHmm (nl_endTime newLog)"
      and "\<not> timeLt (nl_startTime newLog) (nl_endTime newLog)"
  shows "handleAddLog e validate localTask newLog now = Alerted EndNotAfterStart
         \<and> localTaskAfter localTask (handleAddLog e validate localTask newLog now) = localTask"
proof -
  obtain x y where x: "minuteOfDay (nl_startTime newLog) = Some x"
      and y: "minuteOfDay (nl_endTime newLog) = Some y"
    using assms(1,2) by (auto simp: validHHmm_def)
  have "y \<le> x" using assms(3) by (simp add: timeLt_def x y)
  then have "num_le (calculateDuration e (nl_startTime newLog) (nl_endTime newLog)) (Finite 0)"
    by (simp add: calculateDuration_HHmm[OF x y])
  then have "handleAddLog e validate localTask newLog now = Alerted EndNotAfterStart"
    using validHHmm_nonempty[OF assms(1)] validHHmm_nonempty[OF assms(2)]
    by (simp add: handleAddLog_def)
  then show ?thesis by (simp add: localTaskAfter_def)
qed

theorem handleAddLog_rejects_nonpositive_witness:
  "validHHmm (nl_startTime form_1000_1000) \<and> validHHmm (nl_endTime form_1000_1000)
   \<and> \<not> timeLt (nl_startTime form_1000_1000) (nl_endTime form_1000_1000)
   \<and> handleAddLog utcEnv (Some (validateTimeRange utcEnv rangeTask)) rangeTask form_1000_1000
         ''1700000000009'' = Alerted EndNotAfterStart"
proof -
  have a: "validHHmm (nl_startTime form_1000_1000)" "validHHmm (nl_endTime form_1000_1000)"
    by (simp_all add: form_1000_1000_def validHHmm_def minutes)
  have b: "\<not> timeLt (nl_startTime form_1000_1000) (nl_endTime form_1000_1000)"
    by (simp add: form_1000_1000_def timeLt_def minutes)
  show ?thesis
    using handleAddLog_rejects_nonpositive[OF a b] a b by blast
qed

lemma foldl_duration:
  "foldl (\<lambda>sum log. num_add sum (duration log)) a ls =
     (if a = NaN \<or> NaN \<in> set (map duration ls) then NaN
      else Finite (intOf a + sum_list (map (\<lambda>l. intOf (duration l)) ls)))"
proof (induction ls arbitrary: a)
  case Nil
  then show ?case by (cases a) (simp_all add: intOf_def)
next
  case (Cons l ls)
  show ?case
  proof (cases a)
    case NaN
    then show ?thesis using Cons.IH[of NaN] by simp
  next
    case (Finite i)
    show ?thesis
    proof (cases "duration l")
      case NaN
      then show ?thesis using Cons.IH[of NaN] Finite by simp
    next
      case (Finite j)
      then show ?thesis using Cons.IH[of "Finite (i + j)"] \<open>a = Finite i\<close>
        by (auto simp add: intOf_def)
    qed
  qed
qed

lemma reduceDuration_sum: "reduceDuration ls = sumOfDurations ls"
  by (simp add: reduceDuration_def sumOfDurations_def foldl_duration intOf_def)

text \<open>
  C7. After a log is added by \<open>handleAddLog\<close> and after a log is deleted by
  \<open>handleDeleteLog\<close>, \<open>totalDuration\<close> is the sum of the durations of the logs that
  the task then holds.
\<close>

theorem totalDuration_after_add_delete:
  "(handleAddLog e validate localTask newLog now = Replaced t \<longrightarrow>
       totalDuration t = Some (sumOfDurations (logsOrEmpty t))
       \<and> butlast (logsOrEmpty t) = logsOrEmpty localTask)
   \<and> (\<exists>t'. handleDeleteLog localTask logId = Replaced t'
         \<and> totalDuration t' = Some (sumOfDurations (logsOrEmpty t'))
         \<and> logsOrEmpty t' = filter (\<lambda>log. log_id log \<noteq> logId) (logsOrEmpty localTask))"
proof (intro conjI impI)
  assume "handleAddLog e validate localTask newLog now = Replaced t"
  then show "totalDuration t = Some (sumOfDurations (logsOrEmpty t))"
    by (auto simp: handleAddLog_def Let_def logsOrEmpty_def reduceDuration_sum split: if_splits)
next
  assume "handleAddLog e validate localTask newLog now = Replaced t"
  then show "butlast (logsOrEmpty t) = logsOrEmpty localTask"
    by (auto simp: handleAddLog_def Let_def logsOrEmpty_def split: if_splits)
next
  show "\<exists>t'. handleDeleteLog localTask logId = Replaced t'
         \<and> totalDuration t' = Some (sumOfDurations (logsOrEmpty t'))
         \<and> logsOrEmpty t' = filter (\<lambda>log. log_id log \<noteq> logId) (logsOrEmpty localTask)"
    by (auto simp: handleDeleteLog_def Let_def logsOrEmpty_def reduceDuration_sum split: option.splits)
qed

lemma add_0900_1000:
  "handleAddLog utcEnv (Some (validateTimeRange utcEnv rangeTask)) rangeTask form_0900_1000
     ''1700000000009'' = Replaced addedTask"
proof -
  have d: "calculateDuration utcEnv ''09:00'' ''10:00'' = Finite 60"
    using calculateDuration_HHmm[OF minute_0900 minute_1000, of utcEnv] by simp
  have o: "\<not> TaskCard_isTimeRangeOverlap (Some (validateTimeRange utcEnv rangeTask)) rangeTask
              ''09:00'' ''10:00'' ''2024-01-03''"
    by (simp add: TaskCard_isTimeRangeOverlap_def validateTimeRange_def isTimeRangeOverlap_def
        logsOrEmpty_def rangeTask_def)
  show ?thesis
    using o by (simp add: handleAddLog_def form_0900_1000_def d Let_def addedTask_def log_0900_1000_def
        reduceDuration_def logsOrEmpty_def rangeTask_def)
qed

theorem totalDuration_after_add_delete_witness:
  "handleAddLog utcEnv (Some (validateTimeRange utcEnv rangeTask)) rangeTask form_0900_1000
     ''1700000000009'' = Replaced addedTask
   \<and> totalDuration addedTask = Some (sumOfDurations (logsOrEmpty addedTask))
   \<and> sumOfDurations (logsOrEmpty addedTask) = Finite 60"
proof -
  have "totalDuration addedTask = Some (sumOfDurations (logsOrEmpty addedTask))"
    using totalDuration_after_add_delete[where e = utcEnv
        and validate = "Some (validateTimeRange utcEnv rangeTask)" and localTask = rangeTask
        and newLog = form_0900_1000 and now = "''1700000000009''" and t = addedTask]
      add_0900_1000 by blast
  moreover have "sumOfDurations (logsOrEmpty addedTask) = Finite 60"
    by (simp add: sumOfDurations_def logsOrEmpty_def addedTask_def log_0900_1000_def intOf_def)
  ultimately show ?thesis using add_0900_1000 by blast
qed

text \<open>
  C4 as stated fails: an existing log whose id differs from the candidate's, with the same
  date, start and end, is not in the comparison set that the card builds.
\<close>

theorem otherLogs_drops_same_fields_counterexample:
  "log_dup \<in> set (logsOrEmpty dupTask) \<and> log_id log_dup \<noteq> ''1700000000009''
   \<and> log_dup \<notin> set (otherLogs dupTask ''09:00'' ''10:00'' ''2024-01-03'')"
  by (simp add: logsOrEmpty_def dupTask_def otherLogs_def log_dup_def)

text \<open>
  C4, as the code has it. The card drops from the comparison set every existing log whose
  date, start and end all equal the candidate's; renaming ids changes nothing. The
  validator given by page.tsx does not look at that set and checks the candidate against
  all logs of the task, so a log with the candidate's start and end still rejects it.
\<close>

theorem comparison_set_by_field_values:
  "otherLogs localTask start end_t date_t =
       filter (\<lambda>log. \<not> (log_date log = date_t \<and> startTime log = start \<and> endTime log = end_t))
         (logsOrEmpty localTask)
   \<and> otherLogs (localTask\<lparr>logs := Some (map (log_id_update g) ls)\<rparr>) start end_t date_t =
       map (log_id_update g) (otherLogs (localTask\<lparr>logs := Some ls\<rparr>) start end_t date_t)
   \<and> TaskCard_isTimeRangeOverlap (Some (validateTimeRange e task)) localTask start end_t date_t =
       isTimeRangeOverlap e start end_t (logsOrEmpty task)
   \<and> (timeLt start end_t \<and> log \<in> set (logsOrEmpty task) \<and> startTime log = start \<and> endTime log = end_t
        \<longrightarrow> TaskCard_isTimeRangeOverlap (Some (validateTimeRange e task)) localTask start end_t date_t)"
proof (intro conjI impI)
  show "otherLogs localTask start end_t date_t =
       filter (\<lambda>log. \<not> (log_date log = date_t \<and> startTime log = start \<and> endTime log = end_t))
         (logsOrEmpty localTask)"
    by (simp add: otherLogs_def logsOrEmpty_def split: option.splits)
next
  show "otherLogs (localTask\<lparr>logs := Some (map (log_id_update g) ls)\<rparr>) start end_t date_t =
       map (log_id_update g) (otherLogs (localTask\<lparr>logs := Some ls\<rparr>) start end_t date_t)"
    by (simp add: otherLogs_def filter_map comp_def)
next
  show "TaskCard_isTimeRangeOverlap (Some (validateTimeRange e task)) localTask start end_t date_t =
       isTimeRangeOverlap e start end_t (logsOrEmpty task)"
    by (simp add: TaskCard_isTimeRangeOverlap_def validateTimeRange_def)
next
  assume h: "timeLt start end_t \<and> log \<in> set (logsOrEmpty task) \<and> startTime log = start \<and> endTime log = end_t"
  then obtain a b where a: "minuteOfDay start = Some a" and b: "minuteOfDay end_t = Some b" and ab: "a < b"
    using timeLt_D by blast
  have "minuteOfDay (startTime log) = Some a" "minuteOfDay (endTime log) = Some b"
    using h a b by simp_all
  from overlap_one[OF a b ab this ab, of e]
  have "isTimeRangeOverlap e start end_t (logsOrEmpty task)"
    using h ab unfolding isTimeRangeOverlap_def Let_def list_ex_iff by blast
  then show "TaskCard_isTimeRangeOverlap (Some (validateTimeRange e task)) localTask start end_t date_t"
    by (simp add: TaskCard_isTimeRangeOverlap_def validateTimeRange_def)
qed

theorem comparison_set_by_field_values_witness:
  "timeLt ''09:00'' ''10:00'' \<and> log_dup \<in> set (logsOrEmpty dupTask)
   \<and> startTime log_dup = ''09:00'' \<and> endTime log_dup = ''10:00''
   \<and> otherLogs dupTask ''09:00'' ''10:00'' ''2024-01-03'' = []
   \<and> TaskCard_isTimeRangeOverlap (Some (validateTimeRange utcEnv dupTask)) dupTask
         ''09:00'' ''10:00'' ''2024-01-03''"
proof -
  have a: "timeLt ''09:00'' ''10:00''"
    by (simp add: timeLt_def minutes)
  have b: "log_dup \<in> set (logsOrEmpty dupTask)" "startTime log_dup = ''09:00''"
      "endTime log_dup = ''10:00''"
    by (simp_all add: logsOrEmpty_def dupTask_def log_dup_def)
  have c: "otherLogs dupTask ''09:00'' ''10:00'' ''2024-01-03'' = []"
    by (simp add: dupTask_def otherLogs_def log_dup_def)
  show ?thesis
    using comparison_set_by_field_values[where e = utcEnv and task = dupTask and localTask = dupTask
        and start = "''09:00''" and end_t = "''10:00''" and date_t = "''2024-01-03''" and log = log_dup]
      a b c by blast
qed

section \<open>The ordering manager\<close>

lemma assignOrder_completed: "filter completed (assignOrder c ts) = filter completed ts"
  by (induction ts arbitrary: c) auto

lemma assignOrder_ids: "map task_id (assignOrder c ts) = map task_id ts"
  by (induction ts arbitrary: c) auto

lemma upt_shift: "map (\<lambda>k. c + int k) [0..<Suc n] = c # map (\<lambda>k. (c + 1) + int k) [0..<n]"
proof -
  have "[0..<Suc n] = 0 # map Suc [0..<n]"
    by (simp add: upt_conv_Cons map_Suc_upt del: upt_Suc)
  then show ?thesis by (simp add: comp_def algebra_simps del: upt_Suc)
qed

lemma assignOrder_orders:
  "map task_order (filter (\<lambda>t. \<not> completed t) (assignOrder c ts)) =
     map (\<lambda>k. c + int k) [0..<length (filter (\<lambda>t. \<not> completed t) ts)]"
proof (induction ts arbitrary: c)
  case Nil
  then show ?case by simp
next
  case (Cons t ts)
  show ?case
  proof (cases "completed t")
    case True
    then show ?thesis using Cons.IH[of c] by simp
  next
    case False
    then show ?thesis using Cons.IH[of "c + 1"] upt_shift[of c] by (simp del: upt_Suc)
  qed
qed

lemma findIndex_Some: "findIndex P xs = Some i \<Longrightarrow> i < length xs \<and> P (xs ! i)"
proof (induction xs arbitrary: i)
  case Nil
  then show ?case by simp
next
  case (Cons x xs)
  then show ?case by (cases "P x") auto
qed

lemma findIndex_None: "findIndex P xs = None \<Longrightarrow> x \<in> set xs \<Longrightarrow> \<not> P x"
  by (induction xs) (auto split: if_splits)

lemma findIndex_id:
  assumes "distinct (map task_id ts)" and "t \<in> set ts"
  shows "\<exists>i. findIndex (\<lambda>u. Some (task_id u) = Some (task_id t)) ts = Some i \<and> i < length ts \<and> ts ! i = t"
proof (cases "findIndex (\<lambda>u. Some (task_id u) = Some (task_id t)) ts")
  case None
  then show ?thesis using findIndex_None[OF None assms(2)] by simp
next
  case (Some i)
  have i: "i < length ts" "task_id (ts ! i) = task_id t"
    using findIndex_Some[OF Some] by simp_all
  have "inj_on task_id (set ts)" using assms(1) by (simp add: distinct_map)
  then have "ts ! i = t" using i assms(2) by (auto dest: inj_onD)
  then show ?thesis using Some i by simp
qed

lemma filter_remove_nth:
  assumes "i < length xs" and "\<not> P (xs ! i)"
  shows "filter P (take i xs @ drop (Suc i) xs) = filter P xs"
proof -
  have "xs = take i xs @ xs ! i # drop (Suc i) xs"
    using assms(1) by (rule id_take_nth_drop)
  then have "filter P xs = filter P (take i xs @ xs ! i # drop (Suc i) xs)" by simp
  then show ?thesis using assms(2) by simp
qed

lemma filter_insert_at:
  assumes "\<not> P x"
  shows "filter P (take j ys @ [x] @ drop j ys) = filter P ys"
proof -
  have "filter P (take j ys @ [x] @ drop j ys) = filter P (take j ys) @ filter P (drop j ys)"
    using assms by simp
  also have "\<dots> = filter P (take j ys @ drop j ys)"
    by (rule filter_append[symmetric])
  also have "\<dots> = filter P ys"
    by (simp only: append_take_drop_id)
  finally show ?thesis .
qed

lemma length_filter_remove_nth:
  assumes "i < length xs" and "P (xs ! i)"
  shows "Suc (length (filter P (take i xs @ drop (Suc i) xs))) = length (filter P xs)"
proof -
  have "xs = take i xs @ xs ! i # drop (Suc i) xs"
    using assms(1) by (rule id_take_nth_drop)
  then have "filter P xs = filter P (take i xs @ xs ! i # drop (Suc i) xs)" by simp
  then show ?thesis using assms(2) by simp
qed

lemma length_filter_insert_at:
  assumes "P x"
  shows "length (filter P (take j ys @ [x] @ drop j ys)) = Suc (length (filter P ys))"
proof -
  have "length (filter P (take j ys @ [x] @ drop j ys))
          = Suc (length (filter P (take j ys) @ filter P (drop j ys)))"
    using assms by simp
  also have "filter P (take j ys) @ filter P (drop j ys) = filter P (take j ys @ drop j ys)"
    by (rule filter_append[symmetric])
  also have "take j ys @ drop j ys = ys"
    by (rule append_take_drop_id)
  finally show ?thesis .
qed

lemma moveTask_unfold:
  assumes ids: "idsAssigned tasks"
      and d: "dragIndex < length (filter (\<lambda>t. \<not> completed t) tasks)"
      and h: "hoverIndex < length (filter (\<lambda>t. \<not> completed t) tasks)"
  shows "\<exists>i j. i < length tasks \<and> \<not> completed (tasks ! i) \<and>
           tasks ! i = filter (\<lambda>t. \<not> completed t) tasks ! dragIndex \<and>
           j < length tasks \<and>
           tasks ! j = filter (\<lambda>t. \<not> completed t) tasks ! hoverIndex \<and>
           moveTask tasks dragIndex hoverIndex =
             assignOrder 0 (take j (take i tasks @ drop (Suc i) tasks) @ [tasks ! i]
                            @ drop j (take i tasks @ drop (Suc i) tasks))"
proof -
  let ?inc = "filter (\<lambda>t. \<not> completed t) tasks"
  let ?dt = "?inc ! dragIndex" and ?ht = "?inc ! hoverIndex"
  have "?dt \<in> set ?inc"
    using d by (rule nth_mem)
  moreover have "?ht \<in> set ?inc"
    using h by (rule nth_mem)
  ultimately have "?dt \<in> set ?inc" and "?ht \<in> set ?inc" .
  then have "?dt \<in> {x \<in> set tasks. \<not> completed x}" and "?ht \<in> {x \<in> set tasks. \<not> completed x}"
    by (simp_all only: set_filter)
  then have dmem: "?dt \<in> set tasks" "\<not> completed ?dt" and hmem: "?ht \<in> set tasks"
    by blast+
  have dist: "distinct (map task_id tasks)" and ne: "[] \<notin> set (map task_id tasks)"
    using ids by (simp_all add: idsAssigned_def)
  have "task_id ?dt \<in> set (map task_id tasks)" "task_id ?ht \<in> set (map task_id tasks)"
    using dmem(1) hmem by simp_all
  then have "task_id ?dt \<noteq> []" "task_id ?ht \<noteq> []"
    using ne by metis+
  then have tr: "truthy (Some (task_id ?dt))" "truthy (Some (task_id ?ht))"
    by (simp_all add: truthy_def)
  obtain i where i: "findIndex (\<lambda>u. Some (task_id u) = Some (task_id ?dt)) tasks = Some i"
      "i < length tasks" "tasks ! i = ?dt"
    using findIndex_id[OF dist dmem(1)] by blast
  obtain j where j: "findIndex (\<lambda>u. Some (task_id u) = Some (task_id ?ht)) tasks = Some j"
      "j < length tasks" "tasks ! j = ?ht"
    using findIndex_id[OF dist hmem] by blast
  have mv: "moveTask tasks dragIndex hoverIndex =
          assignOrder 0 (take j (take i tasks @ drop (Suc i) tasks) @ [tasks ! i]
                         @ drop j (take i tasks @ drop (Suc i) tasks))"
    using d h tr i(1) j(1) by (simp add: moveTask_def nthOpt_def Let_def)
  have nc: "\<not> completed (tasks ! i)"
    using i(3) dmem(2) by simp
  from i(2) nc i(3) j(2) j(3) mv show ?thesis by blast
qed

text \<open>
  C6. For a task list with assigned, unique ids and two valid positions in its incomplete
  subset, after \<open>moveTask\<close> the incomplete tasks carry the orders 0..n-1 in the order
  of their new positions, and the completed tasks are the same records in the same
  relative order; no task is lost or duplicated.
\<close>

theorem moveTask_reorders:
  assumes "idsAssigned tasks"
      and "dragIndex < length (filter (\<lambda>t. \<not> completed t) tasks)"
      and "hoverIndex < length (filter (\<lambda>t. \<not> completed t) tasks)"
  shows "map task_order (filter (\<lambda>t. \<not> completed t) (moveTask tasks dragIndex hoverIndex))
           = map int [0..<length (filter (\<lambda>t. \<not> completed t) tasks)]
       \<and> filter completed (moveTask tasks dragIndex hoverIndex) = filter completed tasks
       \<and> mset (map task_id (moveTask tasks dragIndex hoverIndex)) = mset (map task_id tasks)"
proof -
  obtain i j where i: "i < length tasks" "\<not> completed (tasks ! i)"
    and m: "moveTask tasks dragIndex hoverIndex =
             assignOrder 0 (take j (take i tasks @ drop (Suc i) tasks) @ [tasks ! i]
                            @ drop j (take i tasks @ drop (Suc i) tasks))"
    using moveTask_unfold[OF assms] by blast
  let ?removed = "take i tasks @ drop (Suc i) tasks"
  let ?inserted = "take j ?removed @ [tasks ! i] @ drop j ?removed"
  have len: "length (filter (\<lambda>t. \<not> completed t) ?inserted) = length (filter (\<lambda>t. \<not> completed t) tasks)"
    using length_filter_insert_at[of "\<lambda>t. \<not> completed t" "tasks ! i" j ?removed]
      length_filter_remove_nth[of i tasks "\<lambda>t. \<not> completed t"] i by simp
  have a: "map task_order (filter (\<lambda>t. \<not> completed t) (moveTask tasks dragIndex hoverIndex))
           = map int [0..<length (filter (\<lambda>t. \<not> completed t) tasks)]"
    unfolding m assignOrder_orders len by simp
  have "filter completed ?inserted = filter completed ?removed"
    using i(2) by (rule filter_insert_at)
  also have "\<dots> = filter completed tasks"
    using i by (rule filter_remove_nth)
  finally have b: "filter completed (moveTask tasks dragIndex hoverIndex) = filter completed tasks"
    unfolding m assignOrder_completed .
  have "mset ?inserted = mset (take j ?removed @ drop j ?removed) + {#tasks ! i#}"
    by (simp only: mset_append mset.simps) simp
  also have "take j ?removed @ drop j ?removed = ?removed"
    by (rule append_take_drop_id)
  also have "mset ?removed + {#tasks ! i#} = mset (take i tasks @ tasks ! i # drop (Suc i) tasks)"
    by simp
  also have "\<dots> = mset tasks"
    using id_take_nth_drop[OF i(1)] by simp
  finally have "mset ?inserted = mset tasks" .
  then have "mset (map task_id ?inserted) = mset (map task_id tasks)"
    by (metis mset_map)
  then have c: "mset (map task_id (moveTask tasks dragIndex hoverIndex)) = mset (map task_id tasks)"
    unfolding m assignOrder_ids .
  show ?thesis using a b c by blast
qed

theorem moveTask_reorders_witness:
  "idsAssigned [rangeTask, taskB, taskC]
   \<and> 0 < length (filter (\<lambda>t. \<not> completed t) [rangeTask, taskB, taskC])
   \<and> 1 < length (filter (\<lambda>t. \<not> completed t) [rangeTask, taskB, taskC])
   \<and> moveTask [rangeTask, taskB, taskC] 0 1
        = [taskB, taskC\<lparr>task_order := 0\<rparr>, rangeTask\<lparr>task_order := 1\<rparr>]
   \<and> map task_order (filter (\<lambda>t. \<not> completed t) (moveTask [rangeTask, taskB, taskC] 0 1)) = [0, 1]
   \<and> filter completed (moveTask [rangeTask, taskB, taskC] 0 1) = [taskB]"
proof -
  have a: "idsAssigned [rangeTask, taskB, taskC]"
    by (simp add: idsAssigned_def rangeTask_def taskB_def taskC_def)
  have f: "filter (\<lambda>t. \<not> completed t) [rangeTask, taskB, taskC] = [rangeTask, taskC]"
    by (simp add: rangeTask_def taskB_def taskC_def)
  have g: "filter completed [rangeTask, taskB, taskC] = [taskB]"
    by (simp add: rangeTask_def taskB_def taskC_def)
  have b: "0 < length (filter (\<lambda>t. \<not> completed t) [rangeTask, taskB, taskC])"
    and c: "1 < length (filter (\<lambda>t. \<not> completed t) [rangeTask, taskB, taskC])"
    unfolding f by simp_all
  have u: "[0..<2] = [0, Suc 0]"
    by (simp add: upt_conv_Cons)
  have m: "moveTask [rangeTask, taskB, taskC] 0 1
        = [taskB, taskC\<lparr>task_order := 0\<rparr>, rangeTask\<lparr>task_order := 1\<rparr>]"
    by (simp add: moveTask_def Let_def nthOpt_def truthy_def rangeTask_def taskB_def taskC_def)
  show ?thesis
    using moveTask_reorders[OF a b c] a b c m unfolding f g by (simp add: u)
qed

section \<open>The persistence gateway\<close>

lemma distinct_ids_sort_key:
  "distinct (map task_id (sort_key k ts)) = distinct (map task_id ts)"
proof -
  have "mset (map task_id (sort_key k ts)) = mset (map task_id ts)"
    by simp
  then show ?thesis by (rule mset_eq_imp_distinct_iff)
qed

text \<open>
  C10. For every date string and every store (records keyed by unique ids), the list
  returned by \<open>getTasksByDate\<close> holds each task id at most once, also when a task is
  found by the date index and again by the range scan.
\<close>

theorem getTasksByDate_ids_once:
  assumes "distinct (map task_id store)"
  shows "distinct (map task_id (getTasksByDate e store d))"
proof -
  let ?A = "byDateOnly store d"
  let ?B = "filter (\<lambda>task.
               truthy (startDate task) \<and> truthy (endDate task) \<and>
               (let currentDate = getTime e d;
                    startD = getTime e (the (startDate task));
                    endD = getTime e (the (endDate task))
                in num_ge currentDate startD \<and> num_le currentDate endD
                   \<and> task_id task \<notin> set (map task_id ?A))) store"
  have a: "distinct (map task_id ?A)"
    unfolding byDateOnly_def using assms by (rule distinct_map_filter)
  have b: "distinct (map task_id ?B)"
    using assms by (rule distinct_map_filter)
  have c: "set (map task_id ?A) \<inter> set (map task_id ?B) = {}"
    by (auto simp: Let_def intro: rev_image_eqI)
  have "distinct (map task_id (?A @ ?B))"
    using a b c by simp
  then show ?thesis
    unfolding getTasksByDate_def Let_def distinct_ids_sort_key .
qed

lemma getTasksByDate_both_lookups:
  "getTasksByDate utcEnv [rangeTask] ''2024-01-01'' = [rangeTask]"
  by code_simp

theorem getTasksByDate_ids_once_witness:
  "distinct (map task_id [rangeTask])
   \<and> rangeTask \<in> set (byDateOnly [rangeTask] ''2024-01-01'')
   \<and> shouldTaskAppearOnDate utcEnv rangeTask ''2024-01-01''
   \<and> getTasksByDate utcEnv [rangeTask] ''2024-01-01'' = [rangeTask]
   \<and> distinct (map task_id (getTasksByDate utcEnv [rangeTask] ''2024-01-01''))"
proof -
  have a: "distinct (map task_id [rangeTask])"
    by simp
  have b: "rangeTask \<in> set (byDateOnly [rangeTask] ''2024-01-01'')"
    by (simp add: byDateOnly_def rangeTask_def)
  have c: "shouldTaskAppearOnDate utcEnv rangeTask ''2024-01-01''"
    by code_simp
  show ?thesis
    using getTasksByDate_ids_once[OF a, of utcEnv "''2024-01-01''"] a b c getTasksByDate_both_lookups
    by blast
qed

text \<open>
  C1 fails on the code. The range scan of \<open>getTasksByDate\<close> does not look at
  \<open>isAdHoc\<close>, so an ad-hoc task whose range spans 2024-01-01 to 2024-01-05 is returned
  for 2024-01-03, where the resolver says it does not occur; and the index lookup returns
  a task dated 2024-01-10 for that day although its range ended on 2024-01-05.
\<close>

theorem getTasksByDate_differs_from_resolver:
  "adhocRangeTask \<in> set (getTasksByDate utcEnv [adhocRangeTask] ''2024-01-03'')
   \<and> \<not> shouldTaskAppearOnDate utcEnv adhocRangeTask ''2024-01-03''
   \<and> offRangeTask \<in> set (getTasksByDate utcEnv [offRangeTask] ''2024-01-10'')
   \<and> \<not> shouldTaskAppearOnDate utcEnv offRangeTask ''2024-01-10''"
  by code_simp

section \<open>The report generator\<close>

text \<open>
  C9 fails on the code. \<open>exportWeeklyReport\<close> reads \<open>summaryDataForExport\<close>, a name
  that nothing declares, so for every store and every week it ends in the failure alert
  and writes no workbook.
\<close>

theorem exportWeeklyReport_never_writes:
  "exportWeeklyReport e weekDates allTasks = Inl (ReferenceError ''summaryDataForExport'')"
proof -
  have "readVar exportScope ''summaryDataForExport'' = Inl (ReferenceError ''summaryDataForExport'')"
    by code_simp
  then show ?thesis by (simp add: exportWeeklyReport_def)
qed

end
